theory Spec2Isabelle
  imports Main
begin

section \<open>Slot selection (TimeSlotSelection.jsx)\<close>

text \<open>
  The component keeps four pieces of state (\<open>useState\<close>): the fetched slot list, the
  list of chosen entries, a loading flag and an error message (\<open>null\<close> is \<open>None\<close>).
  A fetched slot object carries its label and its enabled flag; a chosen entry carries
  the label it was chosen with and the hour index, which is the position of the slot in
  the rendered list and therefore a natural number.
\<close>

record slotObj =
  slot :: string
  enabled :: bool

record entry =
  eslot :: string
  index :: nat

record tss =
  slots :: "slotObj list"
  selectedSlots :: "entry list"
  loading :: bool
  error :: "string option"

text \<open>
  \<open>handleSlotClick(slotObj, index)\<close>: returns at once for a disabled slot; otherwise
  removes every entry with that index when one is present, and appends a new entry
  when none is.
\<close>

definition handleSlotClick :: "slotObj \<Rightarrow> nat \<Rightarrow> tss \<Rightarrow> tss" where
  "handleSlotClick slotObj i st =
     (if \<not> enabled slotObj then st
      else if list_ex (\<lambda>s. index s = i) (selectedSlots st)
           then st\<lparr>selectedSlots := filter (\<lambda>s. index s \<noteq> i) (selectedSlots st)\<rparr>
           else st\<lparr>selectedSlots := selectedSlots st @ [\<lparr>eslot = slot slotObj, index = i\<rparr>]\<rparr>)"

text \<open>
  The scan of \<open>areSlotConsecutive\<close>: \<open>for (let i = 1; i < indices.length; i++)\<close>,
  returning false at the first position whose value is not its predecessor plus one.
\<close>

function consecutiveLoop :: "nat list \<Rightarrow> nat \<Rightarrow> bool" where
  "consecutiveLoop indices i =
     (if i < length indices
      then (if indices ! i \<noteq> indices ! (i - 1) + 1 then False
            else consecutiveLoop indices (i + 1))
      else True)"
  by pat_completeness auto
termination
  by (relation "measure (\<lambda>(indices, i). length indices - i)") auto

declare consecutiveLoop.simps [simp del]

definition areSlotConsecutive :: "tss \<Rightarrow> bool" where
  "areSlotConsecutive st =
     (if length (selectedSlots st) \<le> 1 then True
      else consecutiveLoop (sort (map index (selectedSlots st))) 1)"

text \<open>
  \<open>handleConfirmSelection\<close> either records an error message or calls the parent's
  \<open>onSlotSelect(slot, hour, hours)\<close>; the call, when made, is returned beside the new
  component state. \<open>[...selectedSlots].sort((a, b) => a.index - b.index)\<close> is a stable
  sort on the index.
\<close>

type_synonym slotCall = "string \<times> nat \<times> nat list"

definition handleConfirmSelection :: "tss \<Rightarrow> tss \<times> slotCall option" where
  "handleConfirmSelection st =
     (if length (selectedSlots st) = 0
      then (st\<lparr>error := Some ''Please select at least one time slot''\<rparr>, None)
      else if \<not> areSlotConsecutive st
      then (st\<lparr>error := Some ''Please select consecutive time slots only''\<rparr>, None)
      else (let sortedSlots = sort_key index (selectedSlots st);
                hours = map index sortedSlots
            in (st, Some (eslot (hd sortedSlots), index (hd sortedSlots), hours))))"

text \<open>
  The reading of "a run with step 1 between consecutive elements": every element of the
  list and its right neighbour differ by exactly one.
\<close>

definition stepOneRun :: "nat list \<Rightarrow> bool" where
  "stepOneRun xs = list_all (\<lambda>(a, b). b = a + 1) (zip xs (tl xs))"

section \<open>Booking wizard (CustomerBooking.jsx)\<close>

text \<open>
  The wizard holds the current step (1 to 4), the chosen date, the stored slot object
  \<open>{slot, hour, hours}\<close>, the chosen ground and the booking confirmation; \<open>null\<close> is
  \<open>None\<close>. Grounds and booking records come from the server and are opaque here.
\<close>

record finalSlot =
  fslot :: string
  hour :: nat
  hours :: "nat list"

record ('g, 'b) wizard =
  currentStep :: nat
  selectedDate :: "string option"
  selectedSlot :: "finalSlot option"
  selectedGround :: "'g option"
  bookingConfirmation :: "'b option"

definition initialWizard :: "('g, 'b) wizard" where
  "initialWizard =
     \<lparr>currentStep = 1, selectedDate = None, selectedSlot = None,
      selectedGround = None, bookingConfirmation = None\<rparr>"

definition handleDateSelect :: "string \<Rightarrow> ('g, 'b) wizard \<Rightarrow> ('g, 'b) wizard" where
  "handleDateSelect date w = w\<lparr>selectedDate := Some date, currentStep := 2\<rparr>"

text \<open>
  \<open>hours: hours || [hour]\<close>: an array, even an empty one, is truthy, so the fallback is
  taken only when the third argument is missing (\<open>None\<close>).
\<close>

definition handleSlotSelect ::
  "string \<Rightarrow> nat \<Rightarrow> nat list option \<Rightarrow> ('g, 'b) wizard \<Rightarrow> ('g, 'b) wizard" where
  "handleSlotSelect s h hs w =
     w\<lparr>selectedSlot := Some \<lparr>fslot = s, hour = h,
                               hours = (case hs of Some l \<Rightarrow> l | None \<Rightarrow> [h])\<rparr>,
       currentStep := 3\<rparr>"



definition handleStartOver :: "('g, 'b) wizard \<Rightarrow> ('g, 'b) wizard" where
  "handleStartOver w =
     w\<lparr>currentStep := 1, selectedDate := None, selectedSlot := None,
       selectedGround := None, bookingConfirmation := None\<rparr>"

text \<open>
  The three back callbacks are the inline arrows \<open>() => setCurrentStep(1)\<close>,
  \<open>() => setCurrentStep(2)\<close> and \<open>() => setCurrentStep(3)\<close> handed to the slot, ground
  and form components.
\<close>

definition onBackSlot :: "('g, 'b) wizard \<Rightarrow> ('g, 'b) wizard" where
  "onBackSlot w = w\<lparr>currentStep := 1\<rparr>"

definition onBackGround :: "('g, 'b) wizard \<Rightarrow> ('g, 'b) wizard" where
  "onBackGround w = w\<lparr>currentStep := 2\<rparr>"

definition onBackForm :: "('g, 'b) wizard \<Rightarrow> ('g, 'b) wizard" where
  "onBackForm w = w\<lparr>currentStep := 3\<rparr>"

text \<open>
  What the component renders: one conditional per step, the form only while there is no
  confirmation, and the confirmation panel whenever there is one. Two of the branches
  read fields of the stored selections while rendering: the confirmation panel reads
  \<open>selectedSlot.hours\<close>, and the form reads \<open>selectedSlot.hours\<close> and
  \<open>selectedGround.name\<close>. With the slot or the ground still \<open>null\<close> that read throws a
  TypeError and nothing is shown. The date, slot and ground components do not read a
  missing selection: the ground component stays in its loading view without a slot.
\<close>

datatype view = DateStep | SlotStep | GroundStep | DetailsStep | Confirmed

datatype renderError = TypeError

definition rendered :: "('g, 'b) wizard \<Rightarrow> renderError + view list" where
  "rendered w =
     (if currentStep w = 4 \<and> bookingConfirmation w = None \<and>
         (selectedSlot w = None \<or> selectedGround w = None)
      then Inl TypeError
      else if bookingConfirmation w \<noteq> None \<and> selectedSlot w = None
      then Inl TypeError
      else Inr
        ((if currentStep w = 1 then [DateStep] else []) @
         (if currentStep w = 2 then [SlotStep] else []) @
         (if currentStep w = 3 then [GroundStep] else []) @
         (if currentStep w = 4 \<and> bookingConfirmation w = None then [DetailsStep] else []) @
         (if bookingConfirmation w \<noteq> None then [Confirmed] else [])))"


text \<open>
  The slot step inside the wizard: confirming runs \<open>handleConfirmSelection\<close> and hands
  its call, if any, to \<open>handleSlotSelect\<close>.
\<close>

definition confirmInWizard :: "tss \<Rightarrow> ('g, 'b) wizard \<Rightarrow> tss \<times> ('g, 'b) wizard" where
  "confirmInWizard st w =
     (case handleConfirmSelection st of
        (st', None) \<Rightarrow> (st', w)
      | (st', Some (s, h, hs)) \<Rightarrow> (st', handleSlotSelect s h (Some hs) w))"

section \<open>Payment verification in the booking form (BookingForm.jsx)\<close>














section \<open>Validators and time formatting (utils/helpers.js)\<close>

text \<open>
  A JavaScript string is a sequence of UTF-16 code units, modelled as natural numbers;
  \<open>js\<close> embeds an ASCII literal. The two validators call \<open>RegExp.prototype.test\<close> on
  patterns anchored at both ends (\<open>^\<close> and \<open>$\<close>, no flags), so a string passes exactly
  when the whole of it matches. Patterns are regular expressions over character classes,
  matched by repeated derivatives.
\<close>

type_synonym jsstring = "nat list"

definition js :: "string \<Rightarrow> jsstring" where
  "js s = map of_char s"

datatype rx = Null | Eps | Class "nat \<Rightarrow> bool" | Alt rx rx | Seq rx rx | Star rx

fun nullable :: "rx \<Rightarrow> bool" where
  "nullable Null = False"
| "nullable Eps = True"
| "nullable (Class p) = False"
| "nullable (Alt r s) = (nullable r \<or> nullable s)"
| "nullable (Seq r s) = (nullable r \<and> nullable s)"
| "nullable (Star r) = True"

fun deriv :: "nat \<Rightarrow> rx \<Rightarrow> rx" where
  "deriv c Null = Null"
| "deriv c Eps = Null"
| "deriv c (Class p) = (if p c then Eps else Null)"
| "deriv c (Alt r s) = Alt (deriv c r) (deriv c s)"
| "deriv c (Seq r s) =
     (if nullable r then Alt (Seq (deriv c r) s) (deriv c s) else Seq (deriv c r) s)"
| "deriv c (Star r) = Seq (deriv c r) (Star r)"

fun derivs :: "rx \<Rightarrow> jsstring \<Rightarrow> rx" where
  "derivs r [] = r"
| "derivs r (c # cs) = derivs (deriv c r) cs"

definition test :: "rx \<Rightarrow> jsstring \<Rightarrow> bool" where
  "test r s = nullable (derivs r s)"

text \<open>The quantifiers \<open>+\<close> and \<open>{n}\<close>.\<close>

definition oneOrMore :: "rx \<Rightarrow> rx" where
  "oneOrMore r = Seq r (Star r)"

fun exactly :: "nat \<Rightarrow> rx \<Rightarrow> rx" where
  "exactly 0 r = Eps"
| "exactly (Suc n) r = Seq r (exactly n r)"

text \<open>
  \<open>\d\<close> is \<open>[0-9]\<close>. \<open>\s\<close> is the white space and line terminator code units of
  ECMAScript: TAB, LF, VT, FF, CR, SP, NBSP, U+1680, U+2000 to U+200A, U+2028, U+2029,
  U+202F, U+205F, U+3000 and U+FEFF.
\<close>

definition isDigit :: "nat \<Rightarrow> bool" where
  "isDigit c = (48 \<le> c \<and> c \<le> 57)"

definition isSpace :: "nat \<Rightarrow> bool" where
  "isSpace c = (c \<in> set [9, 10, 11, 12, 13, 32, 160, 5760, 8232, 8233, 8239, 8287, 12288, 65279]
                \<or> (8192 \<le> c \<and> c \<le> 8202))"

text \<open>\<open>[^\s@]\<close>: any code unit that is neither white space nor \<open>@\<close> (64).\<close>

definition notSpaceAt :: "nat \<Rightarrow> bool" where
  "notSpaceAt c = (\<not> isSpace c \<and> c \<noteq> 64)"

text \<open>\<open>/^[^\s@]+@[^\s@]+\.[^\s@]+$/\<close>\<close>

definition emailRegex :: rx where
  "emailRegex =
     Seq (oneOrMore (Class notSpaceAt))
       (Seq (Class (\<lambda>c. c = 64))
         (Seq (oneOrMore (Class notSpaceAt))
           (Seq (Class (\<lambda>c. c = 46))
             (oneOrMore (Class notSpaceAt)))))"

definition isValidEmail :: "jsstring \<Rightarrow> bool" where
  "isValidEmail email = test emailRegex email"

text \<open>\<open>/^\d{10}$/\<close>\<close>

definition phoneRegex :: rx where
  "phoneRegex = exactly 10 (Class isDigit)"

definition isValidPhone :: "jsstring \<Rightarrow> bool" where
  "isValidPhone phone = test phoneRegex phone"

text \<open>
  The pattern as the specification words it, for comparison with \<open>emailRegex\<close>: one or
  more non-whitespace characters, \<open>@\<close>, one or more non-whitespace characters, a dot, one
  or more non-whitespace characters.
\<close>

definition specEmailPattern :: rx where
  "specEmailPattern =
     Seq (oneOrMore (Class (\<lambda>c. \<not> isSpace c)))
       (Seq (Class (\<lambda>c. c = 64))
         (Seq (oneOrMore (Class (\<lambda>c. \<not> isSpace c)))
           (Seq (Class (\<lambda>c. c = 46))
             (oneOrMore (Class (\<lambda>c. \<not> isSpace c))))))"

text \<open>The meaning of a pattern: the set of strings it matches as a whole.\<close>

inductive_set star :: "jsstring set \<Rightarrow> jsstring set" for A :: "jsstring set" where
  star_empty: "[] \<in> star A"
| star_more: "u \<in> A \<Longrightarrow> v \<in> star A \<Longrightarrow> u @ v \<in> star A"

definition conc :: "jsstring set \<Rightarrow> jsstring set \<Rightarrow> jsstring set" where
  "conc A B = {u @ v | u v. u \<in> A \<and> v \<in> B}"

fun lang :: "rx \<Rightarrow> jsstring set" where
  "lang Null = {}"
| "lang Eps = {[]}"
| "lang (Class p) = {[c] | c. p c}"
| "lang (Alt r s) = lang r \<union> lang s"
| "lang (Seq r s) = conc (lang r) (lang s)"
| "lang (Star r) = star (lang r)"

text \<open>
  Hours are slot positions, natural numbers. \<open>showNat\<close> is the decimal rendering a
  template literal gives a non-negative integer.
\<close>

function showNat :: "nat \<Rightarrow> string" where
  "showNat n =
     (if n < 10 then [''0123456789'' ! n]
      else showNat (n div 10) @ [''0123456789'' ! (n mod 10)])"
  by pat_completeness auto
termination
  by (relation "measure id") auto

declare showNat.simps [simp del]

definition formatTime :: "nat \<Rightarrow> string" where
  "formatTime h =
     (let displayHour = (if h mod 12 = 0 then 12 else h mod 12);
          amPm = (if h < 12 then ''AM'' else ''PM'')
      in showNat displayHour @ '':00 '' @ amPm)"

text \<open>The argument may be \<open>null\<close> or \<open>undefined\<close> (\<open>None\<close>).\<close>

definition formatTimeRange :: "nat list option \<Rightarrow> string" where
  "formatTimeRange arg =
     (case arg of
        None \<Rightarrow> ''''
      | Some hs \<Rightarrow>
          if length hs = 0 then ''''
          else if length hs = 1
          then formatTime (hs ! 0) @ '' to '' @ formatTime (hs ! 0 + 1)
          else (let sortedHours = sort hs;
                    startTime = formatTime (sortedHours ! 0);
                    endTime = formatTime (sortedHours ! (length sortedHours - 1) + 1)
                in startTime @ '' to '' @ endTime))"

section \<open>Sorting facts\<close>

lemma map_insort_key: "map f (insort_key f x xs) = insort (f x) (map f xs)"
  by (induction xs) auto

lemma map_sort_key: "map f (sort_key f xs) = sort (map f xs)"
  by (induction xs) (auto simp: map_insort_key)

lemma sorted_hd_Min:
  assumes "sorted xs" and "xs \<noteq> []"
  shows "hd xs = Min (set xs)"
proof -
  obtain x ys where xs: "xs = x # ys" using assms(2) by (cases xs) auto
  have "Min (set xs) = x"
  proof (rule Min_eqI)
    show "finite (set xs)" by simp
    show "x \<in> set xs" using xs by simp
    fix y assume "y \<in> set xs"
    then show "x \<le> y" using assms(1) xs by auto
  qed
  then show ?thesis using xs by simp
qed

lemma sorted_last_Max:
  assumes "sorted xs" and "xs \<noteq> []"
  shows "last xs = Max (set xs)"
proof -
  have "Max (set xs) = last xs"
  proof (rule Max_eqI)
    show "finite (set xs)" by simp
    show "last xs \<in> set xs" using assms(2) by simp
    fix y assume "y \<in> set xs"
    then obtain i where i: "i < length xs" "xs ! i = y" by (auto simp: in_set_conv_nth)
    then have "xs ! i \<le> xs ! (length xs - 1)"
      using assms(1) by (intro sorted_nth_mono) auto
    then show "y \<le> last xs" using i assms(2) by (simp add: last_conv_nth)
  qed
  then show ?thesis by simp
qed

section \<open>The matcher decides the meaning of a pattern\<close>

lemma nil_in_conc: "[] \<in> conc A B \<longleftrightarrow> [] \<in> A \<and> [] \<in> B"
  by (auto simp: conc_def)

lemma nullable_lang: "nullable r \<longleftrightarrow> [] \<in> lang r"
  by (induction r) (auto simp: nil_in_conc intro: star.star_empty)

lemma cons_in_conc:
  "c # w \<in> conc A B \<longleftrightarrow>
     (\<exists>u v. w = u @ v \<and> c # u \<in> A \<and> v \<in> B) \<or> ([] \<in> A \<and> c # w \<in> B)"
proof
  assume "c # w \<in> conc A B"
  then obtain x y where xy: "c # w = x @ y" "x \<in> A" "y \<in> B"
    by (auto simp: conc_def)
  show "(\<exists>u v. w = u @ v \<and> c # u \<in> A \<and> v \<in> B) \<or> ([] \<in> A \<and> c # w \<in> B)"
  proof (cases x)
    case Nil
    with xy show ?thesis by simp
  next
    case (Cons a x')
    with xy have "w = x' @ y" "c # x' \<in> A" by simp_all
    with xy(3) show ?thesis by blast
  qed
next
  assume r: "(\<exists>u v. w = u @ v \<and> c # u \<in> A \<and> v \<in> B) \<or> ([] \<in> A \<and> c # w \<in> B)"
  then show "c # w \<in> conc A B"
  proof
    assume "\<exists>u v. w = u @ v \<and> c # u \<in> A \<and> v \<in> B"
    then obtain u v where "w = u @ v" "c # u \<in> A" "v \<in> B" by blast
    then have "c # w = (c # u) @ v \<and> c # u \<in> A \<and> v \<in> B" by simp
    then show ?thesis unfolding conc_def by blast
  next
    assume "[] \<in> A \<and> c # w \<in> B"
    then have "c # w = [] @ (c # w) \<and> [] \<in> A \<and> c # w \<in> B" by simp
    then show ?thesis unfolding conc_def by blast
  qed
qed

lemma star_cons_split:
  assumes "x \<in> star A" and "x = c # w"
  shows "\<exists>u v. w = u @ v \<and> c # u \<in> A \<and> v \<in> star A"
  using assms
proof (induction rule: star.induct)
  case star_empty
  then show ?case by simp
next
  case (star_more u v)
  show ?case
  proof (cases u)
    case Nil
    with star_more show ?thesis by simp
  next
    case (Cons a u')
    with star_more.prems have "w = u' @ v" "a = c" by simp_all
    with Cons star_more.hyps(1,2) show ?thesis by blast
  qed
qed

lemma cons_in_star:
  "c # w \<in> star A \<longleftrightarrow> (\<exists>u v. w = u @ v \<and> c # u \<in> A \<and> v \<in> star A)"
proof
  assume "c # w \<in> star A"
  then show "\<exists>u v. w = u @ v \<and> c # u \<in> A \<and> v \<in> star A"
    by (rule star_cons_split) simp
next
  assume "\<exists>u v. w = u @ v \<and> c # u \<in> A \<and> v \<in> star A"
  then obtain u v where uv: "w = u @ v" "c # u \<in> A" "v \<in> star A" by blast
  from star.star_more[OF uv(2,3)] uv(1) show "c # w \<in> star A" by simp
qed

lemma in_conc: "w \<in> conc A B \<longleftrightarrow> (\<exists>u v. w = u @ v \<and> u \<in> A \<and> v \<in> B)"
  by (auto simp: conc_def)

lemma deriv_lang: "w \<in> lang (deriv c r) \<longleftrightarrow> c # w \<in> lang r"
proof (induction r arbitrary: w)
  case Null
  show ?case by simp
next
  case Eps
  show ?case by simp
next
  case (Class p)
  show ?case by auto
next
  case (Alt r s)
  then show ?case by simp
next
  case (Seq r s)
  show ?case
  proof (cases "nullable r")
    case True
    then have n: "[] \<in> lang r" by (simp add: nullable_lang)
    have "w \<in> lang (deriv c (Seq r s)) \<longleftrightarrow>
            (\<exists>u v. w = u @ v \<and> u \<in> lang (deriv c r) \<and> v \<in> lang s) \<or> w \<in> lang (deriv c s)"
      using True by (simp add: in_conc)
    also have "\<dots> \<longleftrightarrow> (\<exists>u v. w = u @ v \<and> c # u \<in> lang r \<and> v \<in> lang s) \<or> c # w \<in> lang s"
      by (simp only: Seq.IH)
    also have "\<dots> \<longleftrightarrow> c # w \<in> lang (Seq r s)"
      using n by (simp add: cons_in_conc)
    finally show ?thesis .
  next
    case False
    then have n: "[] \<notin> lang r" by (simp add: nullable_lang)
    have "w \<in> lang (deriv c (Seq r s)) \<longleftrightarrow>
            (\<exists>u v. w = u @ v \<and> u \<in> lang (deriv c r) \<and> v \<in> lang s)"
      using False by (simp add: in_conc)
    also have "\<dots> \<longleftrightarrow> (\<exists>u v. w = u @ v \<and> c # u \<in> lang r \<and> v \<in> lang s)"
      by (simp only: Seq.IH)
    also have "\<dots> \<longleftrightarrow> c # w \<in> lang (Seq r s)"
      using n by (simp add: cons_in_conc)
    finally show ?thesis .
  qed
next
  case (Star r)
  have "w \<in> lang (deriv c (Star r)) \<longleftrightarrow>
          (\<exists>u v. w = u @ v \<and> u \<in> lang (deriv c r) \<and> v \<in> star (lang r))"
    by (simp add: in_conc)
  also have "\<dots> \<longleftrightarrow> (\<exists>u v. w = u @ v \<and> c # u \<in> lang r \<and> v \<in> star (lang r))"
    by (simp only: Star.IH)
  also have "\<dots> \<longleftrightarrow> c # w \<in> lang (Star r)"
    by (simp add: cons_in_star)
  finally show ?case .
qed

lemma test_lang: "test r s \<longleftrightarrow> s \<in> lang r"
  unfolding test_def
proof (induction s arbitrary: r)
  case Nil
  show ?case by (simp add: nullable_lang)
next
  case (Cons c s)
  show ?case by (simp add: Cons.IH deriv_lang)
qed

lemma cons_in_class_conc: "a # t \<in> conc {[c] | c. p c} B \<longleftrightarrow> p a \<and> t \<in> B"
  by (auto simp: cons_in_conc)

lemma star_class: "s \<in> star {[c] | c. p c} \<longleftrightarrow> list_all p s"
proof
  assume "s \<in> star {[c] | c. p c}"
  then show "list_all p s"
    by (induction rule: star.induct) auto
next
  assume "list_all p s"
  then show "s \<in> star {[c] | c. p c}"
  proof (induction s)
    case Nil
    show ?case by (rule star.star_empty)
  next
    case (Cons a s)
    then have "[a] \<in> {[c] | c. p c}" and "s \<in> star {[c] | c. p c}" by simp_all
    from star.star_more[OF this] show ?case by simp
  qed
qed

lemma lang_oneOrMore_class:
  "s \<in> lang (oneOrMore (Class p)) \<longleftrightarrow> s \<noteq> [] \<and> list_all p s"
proof (cases s)
  case Nil
  then show ?thesis by (simp add: oneOrMore_def nil_in_conc)
next
  case (Cons a t)
  have "s \<in> lang (oneOrMore (Class p)) \<longleftrightarrow> p a \<and> t \<in> star {[c] | c. p c}"
    unfolding Cons by (simp add: oneOrMore_def cons_in_class_conc)
  then show ?thesis using Cons by (simp add: star_class)
qed

lemma lang_exactly_class:
  "s \<in> lang (exactly n (Class p)) \<longleftrightarrow> length s = n \<and> list_all p s"
proof (induction n arbitrary: s)
  case 0
  show ?case by auto
next
  case (Suc n)
  show ?case
  proof (cases s)
    case Nil
    then show ?thesis by (simp add: nil_in_conc)
  next
    case (Cons a t)
    have "s \<in> lang (exactly (Suc n) (Class p)) \<longleftrightarrow> p a \<and> t \<in> lang (exactly n (Class p))"
      unfolding Cons by (simp add: cons_in_class_conc)
    then show ?thesis using Cons by (auto simp: Suc.IH)
  qed
qed

lemma lang_single: "s \<in> lang (Class (\<lambda>c. c = k)) \<longleftrightarrow> s = [k]"
  by auto

section \<open>Contiguity of a selection\<close>

lemma consecutiveLoop_iff:
  "consecutiveLoop xs i \<longleftrightarrow> (\<forall>j. i \<le> j \<and> j < length xs \<longrightarrow> xs ! j = xs ! (j - 1) + 1)"
proof (induction xs i rule: consecutiveLoop.induct)
  case (1 indices i)
  show ?case
  proof (cases "i < length indices")
    case False
    then show ?thesis by (simp add: consecutiveLoop.simps[of indices i])
  next
    case True
    show ?thesis
    proof (cases "indices ! i = indices ! (i - 1) + 1")
      case False
      with True show ?thesis
        by (auto simp: consecutiveLoop.simps[of indices i])
    next
      case eq: True
      have "consecutiveLoop indices i = consecutiveLoop indices (i + 1)"
        using True eq by (simp add: consecutiveLoop.simps[of indices i])
      also have "\<dots> \<longleftrightarrow> (\<forall>j. i + 1 \<le> j \<and> j < length indices \<longrightarrow> indices ! j = indices ! (j - 1) + 1)"
        using 1 True eq by simp
      also have "\<dots> \<longleftrightarrow> (\<forall>j. i \<le> j \<and> j < length indices \<longrightarrow> indices ! j = indices ! (j - 1) + 1)"
      proof (intro iffI allI impI)
        fix j
        assume a: "\<forall>j. i + 1 \<le> j \<and> j < length indices \<longrightarrow> indices ! j = indices ! (j - 1) + 1"
          and b: "i \<le> j \<and> j < length indices"
        show "indices ! j = indices ! (j - 1) + 1"
        proof (cases "j = i")
          case True
          with eq show ?thesis by simp
        next
          case False
          with b have "i + 1 \<le> j \<and> j < length indices" by simp
          with a show ?thesis by blast
        qed
      next
        fix j
        assume a: "\<forall>j. i \<le> j \<and> j < length indices \<longrightarrow> indices ! j = indices ! (j - 1) + 1"
          and b: "i + 1 \<le> j \<and> j < length indices"
        then have "i \<le> j \<and> j < length indices" by simp
        with a show "indices ! j = indices ! (j - 1) + 1" by blast
      qed
      finally show ?thesis .
    qed
  qed
qed

lemma stepOneRun_nth:
  "stepOneRun xs \<longleftrightarrow> (\<forall>j. 1 \<le> j \<and> j < length xs \<longrightarrow> xs ! j = xs ! (j - 1) + 1)"
proof
  assume r: "stepOneRun xs"
  then have all: "\<forall>n<length (zip xs (tl xs)). case zip xs (tl xs) ! n of (a, b) \<Rightarrow> b = a + 1"
    by (simp only: stepOneRun_def list_all_length)
  show "\<forall>j. 1 \<le> j \<and> j < length xs \<longrightarrow> xs ! j = xs ! (j - 1) + 1"
  proof (intro allI impI)
    fix j assume j: "1 \<le> j \<and> j < length xs"
    then obtain k where k: "j = Suc k" by (cases j) auto
    with j have klt: "k < length (zip xs (tl xs))" by simp
    have z: "zip xs (tl xs) ! k = (xs ! k, xs ! Suc k)"
      using j k by (simp add: nth_tl)
    from all[rule_format, OF klt] have "xs ! Suc k = xs ! k + 1"
      by (simp only: z prod.case)
    then show "xs ! j = xs ! (j - 1) + 1" by (simp add: k)
  qed
next
  assume a: "\<forall>j. 1 \<le> j \<and> j < length xs \<longrightarrow> xs ! j = xs ! (j - 1) + 1"
  have "\<forall>n<length (zip xs (tl xs)). case zip xs (tl xs) ! n of (a, b) \<Rightarrow> b = a + 1"
  proof (intro allI impI)
    fix n assume n: "n < length (zip xs (tl xs))"
    then have "1 \<le> Suc n \<and> Suc n < length xs" by simp
    from a[rule_format, OF this] have "xs ! Suc n = xs ! n + 1" by simp
    moreover have "zip xs (tl xs) ! n = (xs ! n, xs ! Suc n)"
      using n by (simp add: nth_tl)
    ultimately show "case zip xs (tl xs) ! n of (a, b) \<Rightarrow> b = a + 1" by simp
  qed
  then show "stepOneRun xs"
    by (simp only: stepOneRun_def list_all_length)
qed

lemma stepOneRun_interval: "stepOneRun xs \<longleftrightarrow> xs = [hd xs ..< hd xs + length xs]"
proof -
  have "stepOneRun xs \<longleftrightarrow> (\<forall>j < length xs. xs ! j = hd xs + j)"
  proof
    assume r: "stepOneRun xs"
    show "\<forall>j < length xs. xs ! j = hd xs + j"
    proof (intro allI impI)
      fix j show "j < length xs \<Longrightarrow> xs ! j = hd xs + j"
      proof (induction j)
        case 0 then show ?case by (simp add: hd_conv_nth)
      next
        case (Suc j)
        then have sj: "1 \<le> Suc j \<and> Suc j < length xs" by simp
        from r have "\<forall>j. 1 \<le> j \<and> j < length xs \<longrightarrow> xs ! j = xs ! (j - 1) + 1"
          by (simp only: stepOneRun_nth)
        from this[rule_format, OF sj] have "xs ! Suc j = xs ! j + 1" by simp
        with Suc show ?case by simp
      qed
    qed
  next
    assume "\<forall>j < length xs. xs ! j = hd xs + j"
    then show "stepOneRun xs" unfolding stepOneRun_nth by auto
  qed
  also have "\<dots> \<longleftrightarrow> xs = [hd xs ..< hd xs + length xs]"
  proof
    assume "\<forall>j < length xs. xs ! j = hd xs + j"
    then show "xs = [hd xs ..< hd xs + length xs]"
      by (intro nth_equalityI) simp_all
  next
    assume e: "xs = [hd xs ..< hd xs + length xs]"
    show "\<forall>j < length xs. xs ! j = hd xs + j"
    proof (intro allI impI)
      fix j assume j: "j < length xs"
      have "xs ! j = [hd xs ..< hd xs + length xs] ! j" by (rule arg_cong[OF e])
      also have "\<dots> = hd xs + j" using j by simp
      finally show "xs ! j = hd xs + j" .
    qed
  qed
  finally show ?thesis .
qed

text \<open>
  C1. \<open>areSlotConsecutive\<close> is true exactly when the selection is empty, has one entry,
  or its hour indices, sorted ascending, step by one from each element to the next.
\<close>

theorem areSlotConsecutive_iff:
  "areSlotConsecutive st \<longleftrightarrow>
     (selectedSlots st = [] \<or> length (selectedSlots st) = 1 \<or>
      stepOneRun (sort (map index (selectedSlots st))))"
proof (cases "length (selectedSlots st) \<le> 1")
  case True
  then have "selectedSlots st = [] \<or> length (selectedSlots st) = 1"
    by (cases "selectedSlots st") auto
  with True show ?thesis by (auto simp: areSlotConsecutive_def)
next
  case False
  then have ne: "selectedSlots st \<noteq> []" and n1: "length (selectedSlots st) \<noteq> 1" by auto
  have a: "areSlotConsecutive st = consecutiveLoop (sort (map index (selectedSlots st))) 1"
    using False by (simp add: areSlotConsecutive_def)
  have b: "consecutiveLoop (sort (map index (selectedSlots st))) 1
             = stepOneRun (sort (map index (selectedSlots st)))"
    by (simp only: consecutiveLoop_iff stepOneRun_nth)
  show ?thesis using ne n1 a b by blast
qed

theorem areSlotConsecutive_iff_witness:
  "areSlotConsecutive
     \<lparr>slots = [], selectedSlots =
        [\<lparr>eslot = ''7:00 AM to 8:00 AM'', index = 7\<rparr>,
         \<lparr>eslot = ''5:00 AM to 6:00 AM'', index = 5\<rparr>,
         \<lparr>eslot = ''6:00 AM to 7:00 AM'', index = 6\<rparr>], loading = False, error = None\<rparr> \<and>
   \<not> areSlotConsecutive
     \<lparr>slots = [], selectedSlots =
        [\<lparr>eslot = ''5:00 AM to 6:00 AM'', index = 5\<rparr>,
         \<lparr>eslot = ''7:00 AM to 8:00 AM'', index = 7\<rparr>], loading = False, error = None\<rparr>"
  using areSlotConsecutive_iff [of "\<lparr>slots = [], selectedSlots =
        [\<lparr>eslot = ''7:00 AM to 8:00 AM'', index = 7\<rparr>,
         \<lparr>eslot = ''5:00 AM to 6:00 AM'', index = 5\<rparr>,
         \<lparr>eslot = ''6:00 AM to 7:00 AM'', index = 6\<rparr>], loading = False, error = None\<rparr>"]
    areSlotConsecutive_iff [of "\<lparr>slots = [], selectedSlots =
        [\<lparr>eslot = ''5:00 AM to 6:00 AM'', index = 5\<rparr>,
         \<lparr>eslot = ''7:00 AM to 8:00 AM'', index = 7\<rparr>], loading = False, error = None\<rparr>"]
  by (simp add: stepOneRun_def)

section \<open>Confirming a selection\<close>

lemma hd_sort_key_index:
  assumes "sel \<noteq> []"
  shows "index (hd (sort_key index sel)) = Min (set (map index sel))"
    and "hd (sort_key index sel) \<in> set sel"
proof -
  have ne: "sort_key index sel \<noteq> []" using assms by (metis length_sort length_0_conv)
  have "index (hd (sort_key index sel)) = hd (map index (sort_key index sel))"
    using ne by (simp add: hd_map)
  also have "\<dots> = hd (sort (map index sel))" by (simp only: map_sort_key)
  also have "\<dots> = Min (set (sort (map index sel)))"
  proof (rule sorted_hd_Min)
    show "sorted (sort (map index sel))" by simp
    show "sort (map index sel) \<noteq> []"
    proof
      assume "sort (map index sel) = []"
      then have "set (sort (map index sel)) = {}" by simp
      then show False using assms by simp
    qed
  qed
  finally show "index (hd (sort_key index sel)) = Min (set (map index sel))" by simp
  have "hd (sort_key index sel) \<in> set (sort_key index sel)" by (rule hd_in_set[OF ne])
  then show "hd (sort_key index sel) \<in> set sel" by simp
qed

text \<open>
  C2. Confirming a non-empty contiguous selection leaves the component state as it is and
  calls \<open>onSlotSelect\<close> with the label of the entry of least hour, that least hour as
  the start hour, and the chosen hours sorted ascending; the wizard stores exactly these
  and moves to step 3.
\<close>

theorem handleConfirmSelection_contiguous:
  assumes "selectedSlots st \<noteq> []" and "areSlotConsecutive st"
  shows "handleConfirmSelection st =
           (st, Some (eslot (hd (sort_key index (selectedSlots st))),
                      Min (set (map index (selectedSlots st))),
                      sort (map index (selectedSlots st)))) \<and>
         hd (sort_key index (selectedSlots st)) \<in> set (selectedSlots st) \<and>
         index (hd (sort_key index (selectedSlots st))) = Min (set (map index (selectedSlots st))) \<and>
         confirmInWizard st w =
           (st, w\<lparr>selectedSlot := Some \<lparr>fslot = eslot (hd (sort_key index (selectedSlots st))),
                                          hour = Min (set (map index (selectedSlots st))),
                                          hours = sort (map index (selectedSlots st))\<rparr>,
                  currentStep := 3\<rparr>)"
proof -
  have c: "handleConfirmSelection st =
           (st, Some (eslot (hd (sort_key index (selectedSlots st))),
                      Min (set (map index (selectedSlots st))),
                      sort (map index (selectedSlots st))))"
    using assms hd_sort_key_index(1)[OF assms(1)]
    by (simp add: handleConfirmSelection_def Let_def map_sort_key)
  show ?thesis
    using c hd_sort_key_index[OF assms(1)]
    by (simp add: confirmInWizard_def handleSlotSelect_def)
qed

theorem handleConfirmSelection_contiguous_witness:
  "selectedSlots \<lparr>slots = [], selectedSlots =
      [\<lparr>eslot = ''3:00 PM to 4:00 PM'', index = 15\<rparr>,
       \<lparr>eslot = ''2:00 PM to 3:00 PM'', index = 14\<rparr>,
       \<lparr>eslot = ''4:00 PM to 5:00 PM'', index = 16\<rparr>], loading = False, error = None\<rparr> \<noteq> [] \<and>
   areSlotConsecutive \<lparr>slots = [], selectedSlots =
      [\<lparr>eslot = ''3:00 PM to 4:00 PM'', index = 15\<rparr>,
       \<lparr>eslot = ''2:00 PM to 3:00 PM'', index = 14\<rparr>,
       \<lparr>eslot = ''4:00 PM to 5:00 PM'', index = 16\<rparr>], loading = False, error = None\<rparr> \<and>
   snd (handleConfirmSelection \<lparr>slots = [], selectedSlots =
      [\<lparr>eslot = ''3:00 PM to 4:00 PM'', index = 15\<rparr>,
       \<lparr>eslot = ''2:00 PM to 3:00 PM'', index = 14\<rparr>,
       \<lparr>eslot = ''4:00 PM to 5:00 PM'', index = 16\<rparr>], loading = False, error = None\<rparr>)
     = Some (''2:00 PM to 3:00 PM'', 14, [14, 15, 16])"
proof -
  let ?st = "\<lparr>slots = [], selectedSlots =
      [\<lparr>eslot = ''3:00 PM to 4:00 PM'', index = 15\<rparr>,
       \<lparr>eslot = ''2:00 PM to 3:00 PM'', index = 14\<rparr>,
       \<lparr>eslot = ''4:00 PM to 5:00 PM'', index = 16\<rparr>], loading = False, error = None\<rparr>"
  have h1: "selectedSlots ?st \<noteq> []" by simp
  have h2: "areSlotConsecutive ?st"
    by (simp add: areSlotConsecutive_def consecutiveLoop.simps)
  from handleConfirmSelection_contiguous[OF h1 h2, THEN conjunct1]
  have "snd (handleConfirmSelection ?st) = Some (''2:00 PM to 3:00 PM'', 14, [14, 15, 16])"
    by simp
  with h1 h2 show ?thesis by blast
qed

text \<open>
  C3. Confirming an empty selection records the message for "no slot chosen", confirming
  a non-empty selection that is not contiguous records the message for "non-consecutive";
  the two messages differ, and in both cases \<open>onSlotSelect\<close> is not called, the chosen
  entries stay as they are and the wizard is left untouched.
\<close>

theorem handleConfirmSelection_invalid:
  "(selectedSlots st = [] \<longrightarrow>
      handleConfirmSelection st = (st\<lparr>error := Some ''Please select at least one time slot''\<rparr>, None) \<and>
      confirmInWizard st w = (st\<lparr>error := Some ''Please select at least one time slot''\<rparr>, w)) \<and>
   (selectedSlots st \<noteq> [] \<and> \<not> areSlotConsecutive st \<longrightarrow>
      handleConfirmSelection st = (st\<lparr>error := Some ''Please select consecutive time slots only''\<rparr>, None) \<and>
      confirmInWizard st w = (st\<lparr>error := Some ''Please select consecutive time slots only''\<rparr>, w)) \<and>
   ''Please select at least one time slot'' \<noteq> ''Please select consecutive time slots only''"
  by (simp add: handleConfirmSelection_def confirmInWizard_def)

theorem handleConfirmSelection_invalid_witness:
  "selectedSlots
     \<lparr>slots = [], selectedSlots = [], loading = False, error = None\<rparr> = [] \<and>
   handleConfirmSelection
     \<lparr>slots = [], selectedSlots = [], loading = False, error = None\<rparr>
   = (\<lparr>slots = [], selectedSlots = [], loading = False,
       error = Some ''Please select at least one time slot''\<rparr>, None) \<and>
   selectedSlots
     \<lparr>slots = [], selectedSlots =
        [\<lparr>eslot = ''3:00 AM to 4:00 AM'', index = 3\<rparr>,
         \<lparr>eslot = ''4:00 AM to 5:00 AM'', index = 4\<rparr>,
         \<lparr>eslot = ''6:00 AM to 7:00 AM'', index = 6\<rparr>], loading = False, error = None\<rparr> \<noteq> [] \<and>
   \<not> areSlotConsecutive
     \<lparr>slots = [], selectedSlots =
        [\<lparr>eslot = ''3:00 AM to 4:00 AM'', index = 3\<rparr>,
         \<lparr>eslot = ''4:00 AM to 5:00 AM'', index = 4\<rparr>,
         \<lparr>eslot = ''6:00 AM to 7:00 AM'', index = 6\<rparr>], loading = False, error = None\<rparr> \<and>
   snd (handleConfirmSelection
     \<lparr>slots = [], selectedSlots =
        [\<lparr>eslot = ''3:00 AM to 4:00 AM'', index = 3\<rparr>,
         \<lparr>eslot = ''4:00 AM to 5:00 AM'', index = 4\<rparr>,
         \<lparr>eslot = ''6:00 AM to 7:00 AM'', index = 6\<rparr>], loading = False, error = None\<rparr>) = None \<and>
   error (fst (handleConfirmSelection
     \<lparr>slots = [], selectedSlots =
        [\<lparr>eslot = ''3:00 AM to 4:00 AM'', index = 3\<rparr>,
         \<lparr>eslot = ''4:00 AM to 5:00 AM'', index = 4\<rparr>,
         \<lparr>eslot = ''6:00 AM to 7:00 AM'', index = 6\<rparr>], loading = False, error = None\<rparr>)) = Some ''Please select consecutive time slots only''"
proof -
  let ?e = "\<lparr>slots = [], selectedSlots = [], loading = False, error = None\<rparr>"
  let ?g = "\<lparr>slots = [], selectedSlots =
        [\<lparr>eslot = ''3:00 AM to 4:00 AM'', index = 3\<rparr>,
         \<lparr>eslot = ''4:00 AM to 5:00 AM'', index = 4\<rparr>,
         \<lparr>eslot = ''6:00 AM to 7:00 AM'', index = 6\<rparr>], loading = False, error = None\<rparr>"
  have h1: "selectedSlots ?e = []" by simp
  have h2: "selectedSlots ?g \<noteq> []" by simp
  have h3: "\<not> areSlotConsecutive ?g"
    by (simp add: areSlotConsecutive_def consecutiveLoop.simps)
  from handleConfirmSelection_invalid [of ?e "initialWizard :: (unit, unit) wizard", THEN conjunct1] h1
  have a: "handleConfirmSelection ?e
             = (\<lparr>slots = [], selectedSlots = [], loading = False,
                 error = Some ''Please select at least one time slot''\<rparr>, None)"
    by simp
  from handleConfirmSelection_invalid [of ?g "initialWizard :: (unit, unit) wizard", THEN conjunct2, THEN conjunct1] h2 h3
  have b: "snd (handleConfirmSelection ?g) = None \<and>
           error (fst (handleConfirmSelection ?g)) = Some ''Please select consecutive time slots only''"
    by simp
  from h1 h2 h3 a b show ?thesis by blast
qed

section \<open>Going back in the wizard\<close>

text \<open>
  After date, slot, back, back, the stored slot is still there: the back callbacks set
  the step and nothing else.
\<close>

theorem back_keeps_selectedSlot:
  "selectedSlot
     (onBackSlot (onBackGround
        (handleSlotSelect ''2:00 PM to 3:00 PM'' 14 (Some [14, 15, 16])
           (handleDateSelect ''2026-02-10'' (initialWizard :: (unit, unit) wizard)))))
   = Some \<lparr>fslot = ''2:00 PM to 3:00 PM'', hour = 14, hours = [14, 15, 16]\<rparr>"
  by (simp add: onBackSlot_def onBackGround_def handleSlotSelect_def handleDateSelect_def
      initialWizard_def)

text \<open>
  C4, amended. From the initial wizard, choosing a date, storing a slot and going back
  twice ends at step 1 with only the date step rendered and no ground chosen; the date
  and the stored slot are kept, and the back actions of the slot step and of the ground
  step change the step only.
\<close>

theorem back_back_state:
  "currentStep (onBackSlot (onBackGround (handleSlotSelect s h hs
       (handleDateSelect date initialWizard)))) = 1 \<and>
   rendered (onBackSlot (onBackGround (handleSlotSelect s h hs
       (handleDateSelect date initialWizard)))) = Inr [DateStep] \<and>
   selectedGround (onBackSlot (onBackGround (handleSlotSelect s h hs
       (handleDateSelect date initialWizard)))) = None \<and>
   selectedDate (onBackSlot (onBackGround (handleSlotSelect s h hs
       (handleDateSelect date initialWizard)))) = Some date \<and>
   selectedSlot (onBackSlot (onBackGround (handleSlotSelect s h hs
       (handleDateSelect date initialWizard))))
     = Some \<lparr>fslot = s, hour = h, hours = (case hs of Some l \<Rightarrow> l | None \<Rightarrow> [h])\<rparr> \<and>
   onBackSlot w = w\<lparr>currentStep := 1\<rparr> \<and>
   onBackGround w = w\<lparr>currentStep := 2\<rparr>"
  by (simp add: onBackSlot_def onBackGround_def handleSlotSelect_def handleDateSelect_def
      initialWizard_def rendered_def)

section \<open>Payment verification\<close>




section \<open>Disabled slots\<close>

text \<open>
  C6. Clicking a slot whose enabled flag is false changes nothing: the component state
  after the click is the state before it, whatever the selection was, and the function
  has no failing branch.
\<close>

theorem handleSlotClick_disabled_noop:
  "\<not> enabled slotObj \<Longrightarrow> handleSlotClick slotObj i st = st"
  by (simp add: handleSlotClick_def)

theorem handleSlotClick_disabled_noop_witness:
  "\<not> enabled \<lparr>slot = ''2:00 PM to 3:00 PM'', enabled = False\<rparr> \<and>
   handleSlotClick \<lparr>slot = ''2:00 PM to 3:00 PM'', enabled = False\<rparr> 14
     \<lparr>slots = [], selectedSlots = [\<lparr>eslot = ''1:00 PM to 2:00 PM'', index = 13\<rparr>],
      loading = False, error = None\<rparr>
   = \<lparr>slots = [], selectedSlots = [\<lparr>eslot = ''1:00 PM to 2:00 PM'', index = 13\<rparr>],
      loading = False, error = None\<rparr>"
  using handleSlotClick_disabled_noop
    [of "\<lparr>slot = ''2:00 PM to 3:00 PM'', enabled = False\<rparr>" 14
        "\<lparr>slots = [], selectedSlots = [\<lparr>eslot = ''1:00 PM to 2:00 PM'', index = 13\<rparr>],
          loading = False, error = None\<rparr>"]
  by simp

section \<open>Clicking a slot twice\<close>

lemma handleSlotClick_fields:
  "slots (handleSlotClick so i st) = slots st"
  "loading (handleSlotClick so i st) = loading st"
  "error (handleSlotClick so i st) = error st"
  "tss.more (handleSlotClick so i st) = tss.more st"
  by (simp_all add: handleSlotClick_def)

lemma handleSlotClick_add_remove:
  assumes "\<not> list_ex (\<lambda>s. index s = i) (selectedSlots st)"
  shows "handleSlotClick so i (handleSlotClick so i st) = st"
proof (cases "enabled so")
  case False
  then show ?thesis by (simp add: handleSlotClick_def)
next
  case True
  have f: "filter (\<lambda>s. index s \<noteq> i) (selectedSlots st) = selectedSlots st"
    using assms by (simp add: list_ex_iff filter_id_conv)
  have one: "handleSlotClick so i st =
               st\<lparr>selectedSlots := selectedSlots st @ [\<lparr>eslot = slot so, index = i\<rparr>]\<rparr>"
    using True assms by (simp add: handleSlotClick_def)
  show ?thesis
    unfolding one using True f by (simp add: handleSlotClick_def)
qed

lemma handleSlotClick_remove_add:
  assumes "list_ex (\<lambda>s. index s = i) (selectedSlots st)" and "enabled so"
  shows "selectedSlots (handleSlotClick so i (handleSlotClick so i st)) =
           filter (\<lambda>s. index s \<noteq> i) (selectedSlots st) @ [\<lparr>eslot = slot so, index = i\<rparr>]"
proof -
  have one: "handleSlotClick so i st =
               st\<lparr>selectedSlots := filter (\<lambda>s. index s \<noteq> i) (selectedSlots st)\<rparr>"
    using assms by (simp add: handleSlotClick_def)
  have "\<not> list_ex (\<lambda>s. index s = i) (filter (\<lambda>s. index s \<noteq> i) (selectedSlots st))"
    by (simp add: list_ex_iff)
  then show ?thesis
    unfolding one using assms(2) by (simp add: handleSlotClick_def)
qed

text \<open>
  C7. Clicking the same slot twice in a row gives back the set of chosen hours there was
  before the two clicks, whatever the selection, and touches no other field; when the
  hour was not chosen before, the whole state is restored.
\<close>

theorem handleSlotClick_twice:
  "index ` set (selectedSlots (handleSlotClick so i (handleSlotClick so i st)))
     = index ` set (selectedSlots st) \<and>
   slots (handleSlotClick so i (handleSlotClick so i st)) = slots st \<and>
   loading (handleSlotClick so i (handleSlotClick so i st)) = loading st \<and>
   error (handleSlotClick so i (handleSlotClick so i st)) = error st \<and>
   (\<not> list_ex (\<lambda>s. index s = i) (selectedSlots st) \<longrightarrow>
      handleSlotClick so i (handleSlotClick so i st) = st)"
proof -
  have hours: "index ` set (selectedSlots (handleSlotClick so i (handleSlotClick so i st)))
     = index ` set (selectedSlots st)"
  proof (cases "list_ex (\<lambda>s. index s = i) (selectedSlots st)")
    case False
    from handleSlotClick_add_remove[OF this] show ?thesis by simp
  next
    case sel: True
    show ?thesis
    proof (cases "enabled so")
      case False
      then show ?thesis by (simp add: handleSlotClick_def)
    next
      case True
      have "i \<in> index ` set (selectedSlots st)"
        using sel by (auto simp: list_ex_iff)
      then show ?thesis
        unfolding handleSlotClick_remove_add[OF sel True] by auto
    qed
  qed
  show ?thesis
    using hours handleSlotClick_add_remove[of i st so]
    by (simp add: handleSlotClick_fields)
qed

theorem handleSlotClick_twice_witness:
  "\<not> list_ex (\<lambda>s. index s = 10)
       (selectedSlots \<lparr>slots = [], selectedSlots = [\<lparr>eslot = ''9:00 AM to 10:00 AM'', index = 9\<rparr>],
                        loading = False, error = None\<rparr>) \<and>
   handleSlotClick \<lparr>slot = ''10:00 AM to 11:00 AM'', enabled = True\<rparr> 10
     (handleSlotClick \<lparr>slot = ''10:00 AM to 11:00 AM'', enabled = True\<rparr> 10
        \<lparr>slots = [], selectedSlots = [\<lparr>eslot = ''9:00 AM to 10:00 AM'', index = 9\<rparr>],
         loading = False, error = None\<rparr>)
   = \<lparr>slots = [], selectedSlots = [\<lparr>eslot = ''9:00 AM to 10:00 AM'', index = 9\<rparr>],
       loading = False, error = None\<rparr>"
  using handleSlotClick_twice
    [of "\<lparr>slot = ''10:00 AM to 11:00 AM'', enabled = True\<rparr>" 10
        "\<lparr>slots = [], selectedSlots = [\<lparr>eslot = ''9:00 AM to 10:00 AM'', index = 9\<rparr>],
          loading = False, error = None\<rparr>"]
  by simp

section \<open>Phone numbers\<close>

text \<open>
  C8. \<open>isValidPhone\<close> is true exactly for the strings of ten code units that are all
  digits \<open>0\<close> to \<open>9\<close>; so a string with any other character, with fewer than ten
  characters or with more than ten is rejected.
\<close>

theorem isValidPhone_iff:
  "isValidPhone phone \<longleftrightarrow> length phone = 10 \<and> list_all isDigit phone"
  by (simp only: isValidPhone_def phoneRegex_def test_lang lang_exactly_class)

theorem isValidPhone_iff_witness:
  "isValidPhone (js ''9876543210'') \<and>
   \<not> isValidPhone (js ''98765a3210'') \<and>
   \<not> isValidPhone (js ''987654321'') \<and>
   \<not> isValidPhone (js ''98765432100'')"
  using isValidPhone_iff [of "js ''9876543210''"] isValidPhone_iff [of "js ''98765a3210''"]
    isValidPhone_iff [of "js ''987654321''"] isValidPhone_iff [of "js ''98765432100''"]
  by (simp add: js_def isDigit_def)

section \<open>Email addresses\<close>

lemma isValidEmail_shape:
  "isValidEmail email \<longleftrightarrow>
     (\<exists>l d t. email = l @ [64] @ d @ [46] @ t \<and>
        l \<noteq> [] \<and> list_all notSpaceAt l \<and>
        d \<noteq> [] \<and> list_all notSpaceAt d \<and>
        t \<noteq> [] \<and> list_all notSpaceAt t)"
proof -
  have "isValidEmail email \<longleftrightarrow>
     (\<exists>l r1. email = l @ r1 \<and> l \<in> lang (oneOrMore (Class notSpaceAt)) \<and>
       (\<exists>a r2. r1 = a @ r2 \<and> a \<in> lang (Class (\<lambda>c. c = 64)) \<and>
         (\<exists>d r3. r2 = d @ r3 \<and> d \<in> lang (oneOrMore (Class notSpaceAt)) \<and>
           (\<exists>b t. r3 = b @ t \<and> b \<in> lang (Class (\<lambda>c. c = 46)) \<and>
              t \<in> lang (oneOrMore (Class notSpaceAt))))))"
    by (simp only: isValidEmail_def emailRegex_def test_lang lang.simps(5) in_conc)
  also have "\<dots> \<longleftrightarrow>
     (\<exists>l r1. email = l @ r1 \<and> (l \<noteq> [] \<and> list_all notSpaceAt l) \<and>
       (\<exists>a r2. r1 = a @ r2 \<and> a = [64] \<and>
         (\<exists>d r3. r2 = d @ r3 \<and> (d \<noteq> [] \<and> list_all notSpaceAt d) \<and>
           (\<exists>b t. r3 = b @ t \<and> b = [46] \<and>
              (t \<noteq> [] \<and> list_all notSpaceAt t)))))"
    by (simp only: lang_oneOrMore_class lang_single)
  also have "\<dots> \<longleftrightarrow>
     (\<exists>l d t. email = l @ [64] @ d @ [46] @ t \<and>
        l \<noteq> [] \<and> list_all notSpaceAt l \<and>
        d \<noteq> [] \<and> list_all notSpaceAt d \<and>
        t \<noteq> [] \<and> list_all notSpaceAt t)"
    by blast
  finally show ?thesis .
qed

text \<open>
  The string \<open>a@b@c.d\<close> has the shape the specification words (non-whitespace, \<open>@\<close>,
  non-whitespace, dot, non-whitespace, with \<open>b@c\<close> in the middle), and \<open>isValidEmail\<close>
  rejects it: the classes of the source exclude \<open>@\<close> too.
\<close>

theorem isValidEmail_rejects_second_at:
  "test specEmailPattern (js ''a@b@c.d'') \<and> \<not> isValidEmail (js ''a@b@c.d'')"
  by (simp add: isValidEmail_def test_def emailRegex_def specEmailPattern_def oneOrMore_def
      js_def notSpaceAt_def isSpace_def)

text \<open>
  C9, amended. \<open>isValidEmail\<close> is true exactly for the strings made of a local part,
  \<open>@\<close> (64), a domain part, a dot (46) and a last part, where each of the three parts is
  non-empty and holds neither white space nor \<open>@\<close>; it accepts \<open>a@b.co\<close> and rejects
  \<open>a@b\<close> and \<open>a.com\<close>.
\<close>

theorem isValidEmail_iff:
  "(isValidEmail email \<longleftrightarrow>
     (\<exists>l d t. email = l @ [64] @ d @ [46] @ t \<and>
        l \<noteq> [] \<and> list_all notSpaceAt l \<and>
        d \<noteq> [] \<and> list_all notSpaceAt d \<and>
        t \<noteq> [] \<and> list_all notSpaceAt t)) \<and>
   isValidEmail (js ''a@b.co'') \<and>
   \<not> isValidEmail (js ''a@b'') \<and>
   \<not> isValidEmail (js ''a.com'')"
proof -
  have "isValidEmail (js ''a@b.co'')"
    by (simp add: isValidEmail_def test_def emailRegex_def oneOrMore_def js_def
        notSpaceAt_def isSpace_def)
  moreover have "\<not> isValidEmail (js ''a@b'')"
    by (simp add: isValidEmail_def test_def emailRegex_def oneOrMore_def js_def
        notSpaceAt_def isSpace_def)
  moreover have "\<not> isValidEmail (js ''a.com'')"
    by (simp add: isValidEmail_def test_def emailRegex_def oneOrMore_def js_def
        notSpaceAt_def isSpace_def)
  ultimately show ?thesis
    using isValidEmail_shape [of email] by blast
qed

theorem isValidEmail_iff_witness:
  "isValidEmail (js ''ab@cd.e'') \<and>
   js ''ab@cd.e'' = js ''ab'' @ [64] @ js ''cd'' @ [46] @ js ''e'' \<and>
   list_all notSpaceAt (js ''ab'') \<and> list_all notSpaceAt (js ''cd'') \<and>
   list_all notSpaceAt (js ''e'')"
proof -
  have s: "js ''ab@cd.e'' = js ''ab'' @ [64] @ js ''cd'' @ [46] @ js ''e''"
    by (simp add: js_def)
  have p: "list_all notSpaceAt (js ''ab'')" "list_all notSpaceAt (js ''cd'')"
    "list_all notSpaceAt (js ''e'')"
    by (simp_all add: js_def notSpaceAt_def isSpace_def)
  have n: "js ''ab'' \<noteq> []" "js ''cd'' \<noteq> []" "js ''e'' \<noteq> []"
    by (simp_all add: js_def)
  from s p n have "\<exists>l d t. js ''ab@cd.e'' = l @ [64] @ d @ [46] @ t \<and>
        l \<noteq> [] \<and> list_all notSpaceAt l \<and>
        d \<noteq> [] \<and> list_all notSpaceAt d \<and>
        t \<noteq> [] \<and> list_all notSpaceAt t"
    by blast
  with isValidEmail_iff [of "js ''ab@cd.e''", THEN conjunct1]
  have "isValidEmail (js ''ab@cd.e'')" by blast
  with s p show ?thesis by blast
qed

section \<open>Ranges that end at midnight\<close>

lemma formatTime_24: "formatTime 24 = ''12:00 PM''"
  by (simp add: formatTime_def showNat.simps)

text \<open>
  C10. For a list of hours whose greatest element is 23, the range is rendered from the
  least hour to the end boundary 24, and \<open>formatTime 24\<close> is \<open>12:00 PM\<close>, not the
  \<open>12:00 AM\<close> that hour 0 gets.
\<close>

theorem formatTimeRange_until_midnight:
  assumes "hs \<noteq> []" and "Max (set hs) = 23"
  shows "formatTimeRange (Some hs) = formatTime (Min (set hs)) @ '' to 12:00 PM'' \<and>
         formatTime (Max (set hs) + 1) = ''12:00 PM'' \<and>
         formatTime 0 = ''12:00 AM''"
proof -
  have z: "formatTime 0 = ''12:00 AM''"
    by (simp add: formatTime_def showNat.simps)
  have e: "formatTime (Max (set hs) + 1) = ''12:00 PM''"
    using assms(2) by (simp add: formatTime_24)
  have r: "formatTimeRange (Some hs) = formatTime (Min (set hs)) @ '' to 12:00 PM''"
  proof (cases "length hs = 1")
    case True
    then obtain a where a: "hs = [a]" by (cases hs) auto
    with assms(2) have "a = 23" by simp
    with a show ?thesis by (simp add: formatTimeRange_def formatTime_24)
  next
    case False
    have ne: "sort hs \<noteq> []"
    proof
      assume "sort hs = []"
      then have "set (sort hs) = {}" by simp
      then show False using assms(1) by simp
    qed
    have first: "sort hs ! 0 = Min (set hs)"
      using sorted_hd_Min[OF sorted_sort ne] ne by (simp add: hd_conv_nth)
    have "sort hs ! (length (sort hs) - 1) = Max (set hs)"
      using sorted_last_Max[OF sorted_sort ne] ne by (simp add: last_conv_nth)
    then have last: "sort hs ! (length (sort hs) - 1) + 1 = 24"
      using assms(2) by simp
    have "formatTimeRange (Some hs) =
            formatTime (sort hs ! 0) @ '' to '' @ formatTime (sort hs ! (length (sort hs) - 1) + 1)"
      using False assms(1) by (simp add: formatTimeRange_def Let_def)
    then show ?thesis
      by (simp only: first last formatTime_24) simp
  qed
  from r e z show ?thesis by blast
qed

theorem formatTimeRange_until_midnight_witness:
  "[21, 23, 22 :: nat] \<noteq> [] \<and> Max (set [21, 23, 22 :: nat]) = 23 \<and>
   formatTimeRange (Some [21, 23, 22]) = ''9:00 PM to 12:00 PM''"
proof -
  have h1: "[21, 23, 22 :: nat] \<noteq> []" by simp
  have h2: "Max (set [21, 23, 22 :: nat]) = 23" by simp
  from formatTimeRange_until_midnight[OF h1 h2, THEN conjunct1]
  have "formatTimeRange (Some [21, 23, 22]) = ''9:00 PM to 12:00 PM''"
    by (simp add: formatTime_def showNat.simps)
  with h1 h2 show ?thesis by blast
qed

end
